theory Spec2Isabelle
  imports
    Complex_Main
    "HOL-Library.AList"
    "HOL-Library.Sublist"
    "HOL-Library.Char_ord"
    "HOL-Library.List_Lexorder"
begin

section \<open>Python strings\<close>

text \<open>
  Strings are lists of characters; a \<^typ>\<open>char\<close> stands for a code point below 256.
  The order on strings is the lexicographic order on code points, as Python compares
  \<^verbatim>\<open>str\<close> values.
\<close>

definition is_space :: "char \<Rightarrow> bool" where
  \<comment> \<open>\<^verbatim>\<open>str.isspace\<close> on the code points below 256\<close>
  "is_space c \<longleftrightarrow>
     of_char c \<in> {9::nat, 10, 11, 12, 13, 28, 29, 30, 31, 32, 133, 160}"

definition strip :: "string \<Rightarrow> string" where
  \<comment> \<open>\<^verbatim>\<open>s.strip()\<close>\<close>
  "strip s = rev (dropWhile is_space (rev (dropWhile is_space s)))"

fun split_on :: "char \<Rightarrow> string \<Rightarrow> string list" where
  \<comment> \<open>\<^verbatim>\<open>s.split(c)\<close> for a one-character separator: never the empty list\<close>
  "split_on c [] = [[]]"
| "split_on c (x # xs) =
     (if x = c then [] # split_on c xs
      else (case split_on c xs of
              [] \<Rightarrow> [[x]]
            | w # ws \<Rightarrow> (x # w) # ws))"

definition split_first :: "char \<Rightarrow> string \<Rightarrow> string \<times> string" where
  \<comment> \<open>\<^verbatim>\<open>a, b = s.split(c, 1)\<close> for a string \<open>s\<close> that contains \<open>c\<close>\<close>
  "split_first c s = (takeWhile (\<lambda>x. x \<noteq> c) s, tl (dropWhile (\<lambda>x. x \<noteq> c) s))"

fun join :: "string \<Rightarrow> string list \<Rightarrow> string" where
  \<comment> \<open>\<^verbatim>\<open>sep.join(xs)\<close>\<close>
  "join sep [] = []"
| "join sep [x] = x"
| "join sep (x # y # ys) = x @ sep @ join sep (y # ys)"

section \<open>Style codec\<close>

text \<open>
  A Python \<^verbatim>\<open>dict\<close> keeps its keys in insertion order: it is an association list, and
  \<^verbatim>\<open>d[k] = v\<close> is \<^const>\<open>AList.update\<close> (overwrite in place, or append a new key).
\<close>

type_synonym style_map = "(string \<times> string) list"

definition parse_declaration :: "style_map \<Rightarrow> string \<Rightarrow> style_map" where
  \<comment> \<open>the body of the loop of \<^verbatim>\<open>parse_style\<close>\<close>
  "parse_declaration styles declaration0 =
     (let declaration = strip declaration0
      in if CHR '':'' \<in> set declaration
         then (let (prop, val) = split_first CHR '':'' declaration
               in AList.update (strip prop) (strip val) styles)
         else styles)"

definition parse_style :: "string \<Rightarrow> style_map" where
  "parse_style style_str =
     (if style_str = [] then []
      else foldl parse_declaration [] (split_on CHR '';'' style_str))"

definition style_to_string :: "style_map \<Rightarrow> string" where
  "style_to_string styles = join '';'' (map (\<lambda>(k, v). k @ '':'' @ v) styles)"

section \<open>Elements\<close>

datatype element =
  Element (tag: string) (attrib: "(string \<times> string) list")
          (children: "element list") (etext: "string option")

definition get_attr :: "element \<Rightarrow> string \<Rightarrow> string option" where
  \<comment> \<open>\<^verbatim>\<open>element.get(key)\<close>\<close>
  "get_attr e k = map_of (attrib e) k"

definition get_attr_default :: "element \<Rightarrow> string \<Rightarrow> string \<Rightarrow> string" where
  \<comment> \<open>\<^verbatim>\<open>element.get(key, default)\<close>\<close>
  "get_attr_default e k d = (case map_of (attrib e) k of None \<Rightarrow> d | Some v \<Rightarrow> v)"

definition set_attr :: "element \<Rightarrow> string \<Rightarrow> string \<Rightarrow> element" where
  \<comment> \<open>\<^verbatim>\<open>element.set(key, value)\<close>\<close>
  "set_attr e k v = Element (tag e) (AList.update k v (attrib e)) (children e) (etext e)"

definition truthy :: "string option \<Rightarrow> bool" where
  \<comment> \<open>Python truth value of a string or \<^verbatim>\<open>None\<close>\<close>
  "truthy s = (case s of None \<Rightarrow> False | Some v \<Rightarrow> v \<noteq> [])"

definition set_fill_color :: "element \<Rightarrow> string \<Rightarrow> element" where
  "set_fill_color e color =
     (case get_attr e ''style'' of
        Some style_attr \<Rightarrow>
          if style_attr \<noteq> []
          then set_attr e ''style''
                 (style_to_string (AList.update ''fill'' color (parse_style style_attr)))
          else set_attr e ''fill'' color
      | None \<Rightarrow> set_attr e ''fill'' color)"

definition has_fill_attr :: "element \<Rightarrow> bool" where
  "has_fill_attr e \<longleftrightarrow> get_attr e ''fill'' \<noteq> None"

definition style_has_fill :: "element \<Rightarrow> bool" where
  "style_has_fill e \<longleftrightarrow>
     (case get_attr e ''style'' of
        None \<Rightarrow> False
      | Some s \<Rightarrow> ''fill'' \<in> fst ` set (parse_style s))"

section \<open>Region catalog and multi-path alias table\<close>

record 'v region_entry =
  color :: 'v
  label :: 'v

text \<open>
  The catalog is the dictionary \<^verbatim>\<open>{code: {"color": ..., "label": ...}}\<close> in insertion
  order. The colouring engine is modelled for catalogs whose fields are strings, the shape
  the docstring of \<^verbatim>\<open>parse_data\<close> gives.
\<close>

type_synonym catalog = "(string \<times> string region_entry) list"

definition MULTI_PATH_CLASSES :: "(string \<times> string) list" where
  "MULTI_PATH_CLASSES =
     [(''AO'', ''Angola''), (''AR'', ''Argentina''), (''AU'', ''Australia''),
      (''AZ'', ''Azerbaijan''), (''CA'', ''Canada''), (''CN'', ''China''),
      (''DK'', ''Denmark''), (''GR'', ''Greece''), (''GB'', ''United Kingdom'')]"

definition class_to_code :: "(string \<times> string) list" where
  \<comment> \<open>\<^verbatim>\<open>{v: k for k, v in MULTI_PATH_CLASSES.items()}\<close>\<close>
  "class_to_code = foldl (\<lambda>d (k, v). AList.update v k d) [] MULTI_PATH_CLASSES"

section \<open>Document walker and colorer\<close>

record walk_state =
  colored_count :: nat
  multi_path_count :: nat
  matched_codes :: "string set"

definition initial_state :: walk_state where
  "initial_state = \<lparr>colored_count = 0, multi_path_count = 0, matched_codes = {}\<rparr>"

definition lookup_id :: "catalog \<Rightarrow> element \<Rightarrow> (string \<times> string) option" where
  \<comment> \<open>the \<^verbatim>\<open>if path_id in data\<close> branch: the color and the matched code\<close>
  "lookup_id data path =
     (let path_id = strip (get_attr_default path ''id'' [])
      in case map_of data path_id of
           Some info \<Rightarrow> Some (color info, path_id)
         | None \<Rightarrow> None)"

definition lookup_class :: "catalog \<Rightarrow> element \<Rightarrow> (string \<times> string) option" where
  \<comment> \<open>the \<^verbatim>\<open>elif path_class in class_to_code\<close> branch, down to \<^verbatim>\<open>if code in data\<close>\<close>
  "lookup_class data path =
     (let path_class = strip (get_attr_default path ''class'' [])
      in case map_of class_to_code path_class of
           Some code \<Rightarrow>
             (case map_of data code of
                Some info \<Rightarrow> Some (color info, code)
              | None \<Rightarrow> None)
         | None \<Rightarrow> None)"

definition no_explicit_fill :: "element \<Rightarrow> bool" where
  \<comment> \<open>\<^verbatim>\<open>not current_fill and "fill:" not in current_style\<close>\<close>
  "no_explicit_fill path \<longleftrightarrow>
     (let current_fill = get_attr path ''fill'';
          current_style = get_attr_default path ''style'' []
      in \<not> truthy current_fill \<and> \<not> sublist ''fill:'' current_style)"

definition apply_default :: "string \<Rightarrow> element \<Rightarrow> element" where
  \<comment> \<open>the \<^verbatim>\<open>else\<close> branch of \<^verbatim>\<open>if color:\<close>\<close>
  "apply_default default_color path =
     (if no_explicit_fill path then set_fill_color path default_color else path)"

definition apply_color ::
  "string \<Rightarrow> (string \<times> string) option \<Rightarrow> element \<Rightarrow> walk_state \<Rightarrow> element \<times> walk_state"
where
  \<comment> \<open>\<^verbatim>\<open>if color: ... else: ...\<close>; a color that is \<^verbatim>\<open>None\<close> or empty is falsy\<close>
  "apply_color default_color hit path st =
     (case hit of
        Some (col, matched_code) \<Rightarrow>
          if col \<noteq> []
          then (set_fill_color path col,
                st\<lparr>colored_count := colored_count st + 1,
                   matched_codes := insert matched_code (matched_codes st)\<rparr>)
          else (apply_default default_color path, st)
      | None \<Rightarrow> (apply_default default_color path, st))"

definition color_path ::
  "catalog \<Rightarrow> string \<Rightarrow> element \<Rightarrow> walk_state \<Rightarrow> element \<times> walk_state"
where
  \<comment> \<open>the body of \<^verbatim>\<open>for path in paths\<close>\<close>
  "color_path data default_color path st =
     (case lookup_id data path of
        Some hit \<Rightarrow> apply_color default_color (Some hit) path st
      | None \<Rightarrow>
          (case lookup_class data path of
             Some hit \<Rightarrow>
               apply_color default_color (Some hit) path
                 (st\<lparr>multi_path_count := multi_path_count st + 1\<rparr>)
           | None \<Rightarrow> apply_color default_color None path st))"

text \<open>
  \<^verbatim>\<open>root.findall(".//tag")\<close>: every element below the root with that tag, in document
  order; the root itself is not among them.
\<close>

fun descendants :: "string \<Rightarrow> element list \<Rightarrow> element list" where
  "descendants t [] = []"
| "descendants t (Element t' a cs x # es) =
     (if t' = t then [Element t' a cs x] else []) @ descendants t cs @ descendants t es"

definition svg_path_tag :: string where
  "svg_path_tag = ''{http://www.w3.org/2000/svg}path''"

definition find_path_tag :: "element \<Rightarrow> string" where
  \<comment> \<open>the namespaced query, and the unqualified one when it finds nothing\<close>
  "find_path_tag root_el =
     (if descendants svg_path_tag (children root_el) \<noteq> [] then svg_path_tag else ''path'')"

text \<open>
  The loop changes each found element in place, in document order. An element keeps its
  tag and its children, so the walk is a traversal of the tree that threads the counters.
\<close>

fun walk :: "catalog \<Rightarrow> string \<Rightarrow> string \<Rightarrow> element list \<Rightarrow> walk_state
              \<Rightarrow> element list \<times> walk_state" where
  "walk data default_color t [] st = ([], st)"
| "walk data default_color t (Element t' a cs x # es) st =
     (let (e1, st1) = (if t' = t then color_path data default_color (Element t' a cs x) st
                       else (Element t' a cs x, st));
          (cs1, st2) = walk data default_color t cs st1;
          (es1, st3) = walk data default_color t es st2
      in (Element (tag e1) (attrib e1) cs1 (etext e1) # es1, st3))"

definition color_paths :: "catalog \<Rightarrow> string \<Rightarrow> element \<Rightarrow> element \<times> walk_state" where
  "color_paths data default_color root_el =
     (let (cs, st) = walk data default_color (find_path_tag root_el) (children root_el) initial_state
      in (Element (tag root_el) (attrib root_el) cs (etext root_el), st))"

section \<open>Statistics\<close>

record color_stats =
  colored :: nat
  multi_path :: nat
  unmatched :: nat
  unmatched_codes :: "string list"

definition make_stats :: "catalog \<Rightarrow> walk_state \<Rightarrow> color_stats" where
  "make_stats data st =
     (let unmatched_set = set (map fst data) - matched_codes st
      in \<lparr>colored = colored_count st,
          multi_path = multi_path_count st,
          unmatched = card unmatched_set,
          unmatched_codes = sorted_list_of_set unmatched_set\<rparr>)"

section \<open>Layout helpers\<close>

text \<open>
  Coordinates are real numbers: the rounding of Python's floats is not modelled. The two
  conversions between strings and numbers are parameters of the model: \<open>pyfloat\<close> is
  \<^verbatim>\<open>float(s)\<close>, with \<open>None\<close> where it raises \<^verbatim>\<open>ValueError\<close>, and \<open>pystr\<close> is
  \<^verbatim>\<open>str(x)\<close>.
\<close>

datatype error = FileNotFoundError | ValueError | AttributeError | ParseError

type_synonym viewbox = "real \<times> real \<times> real \<times> real"

fun split_ws_from :: "string \<Rightarrow> string \<Rightarrow> string list" where
  \<comment> \<open>the first argument is the current word, reversed\<close>
  "split_ws_from w [] = (if w = [] then [] else [rev w])"
| "split_ws_from w (x # xs) =
     (if is_space x
      then (if w = [] then split_ws_from [] xs else rev w # split_ws_from [] xs)
      else split_ws_from (x # w) xs)"

definition split_ws :: "string \<Rightarrow> string list" where
  \<comment> \<open>\<^verbatim>\<open>s.split()\<close>: the maximal runs of characters that are not whitespace\<close>
  "split_ws s = split_ws_from [] s"

fun replace_px :: "string \<Rightarrow> string" where
  \<comment> \<open>\<^verbatim>\<open>s.replace("px", "")\<close>: every occurrence, from the left\<close>
  "replace_px [] = []"
| "replace_px [x] = [x]"
| "replace_px (x # y # s) =
     (if x = CHR ''p'' \<and> y = CHR ''x'' then replace_px s else x # replace_px (y # s))"

definition size_fallback :: "(string \<Rightarrow> real option) \<Rightarrow> element \<Rightarrow> error + viewbox" where
  \<comment> \<open>the fallback to the \<^verbatim>\<open>width\<close> and \<^verbatim>\<open>height\<close> attributes\<close>
  "size_fallback pyfloat root_el =
     (case pyfloat (replace_px (get_attr_default root_el ''width'' ''800'')) of
        None \<Rightarrow> Inl ValueError
      | Some width \<Rightarrow>
          (case pyfloat (replace_px (get_attr_default root_el ''height'' ''600'')) of
             None \<Rightarrow> Inl ValueError
           | Some height \<Rightarrow> Inr (0, 0, width, height)))"

definition get_viewbox :: "(string \<Rightarrow> real option) \<Rightarrow> element \<Rightarrow> error + viewbox" where
  "get_viewbox pyfloat root_el =
     (case get_attr root_el ''viewBox'' of
        Some viewbox_str \<Rightarrow>
          if viewbox_str \<noteq> [] \<and> length (split_ws viewbox_str) = 4
          then (case map pyfloat (split_ws viewbox_str) of
                  [Some a, Some b, Some c, Some d] \<Rightarrow> Inr (a, b, c, d)
                | _ \<Rightarrow> Inl ValueError)
          else size_fallback pyfloat root_el
      | None \<Rightarrow> size_fallback pyfloat root_el)"

definition append_child :: "element \<Rightarrow> element \<Rightarrow> element" where
  \<comment> \<open>\<^verbatim>\<open>ET.SubElement(parent, ...)\<close>, once the new element is complete\<close>
  "append_child parent child =
     Element (tag parent) (attrib parent) (children parent @ [child]) (etext parent)"

definition color_labels_step ::
  "(string \<times> string) list \<Rightarrow> string \<times> string region_entry \<Rightarrow> (string \<times> string) list"
where
  \<comment> \<open>the body of the loop over \<^verbatim>\<open>data.items()\<close>\<close>
  "color_labels_step cl = (\<lambda>(code, info).
     if map_of cl (color info) = None
     then AList.update (color info) (label info) cl
     else cl)"

definition color_labels :: "catalog \<Rightarrow> (string \<times> string) list" where
  \<comment> \<open>the first label of every color, in the order of the catalog\<close>
  "color_labels data = foldl color_labels_step [] data"

definition legend_rect :: "(real \<Rightarrow> string) \<Rightarrow> real \<Rightarrow> real \<Rightarrow> string \<Rightarrow> element" where
  "legend_rect pystr legend_x y_offset col =
     Element ''rect''
       [(''x'', pystr legend_x), (''y'', pystr y_offset), (''width'', ''20''),
        (''height'', ''14''), (''fill'', col), (''stroke'', ''#333''),
        (''stroke-width'', ''0.5'')] [] None"

definition legend_text :: "(real \<Rightarrow> string) \<Rightarrow> real \<Rightarrow> real \<Rightarrow> string \<Rightarrow> element" where
  "legend_text pystr legend_x y_offset lab =
     Element ''text''
       [(''x'', pystr (legend_x + 25)), (''y'', pystr (y_offset + 11)),
        (''font-family'', ''sans-serif''), (''font-size'', ''12''), (''fill'', ''#333'')]
       [] (Some lab)"

fun legend_items ::
  "(real \<Rightarrow> string) \<Rightarrow> real \<Rightarrow> real \<Rightarrow> (string \<times> string) list \<Rightarrow> element list" where
  \<comment> \<open>the loop over the sorted rows: a rectangle and a text per row, 20 units apart\<close>
  "legend_items pystr legend_x y_offset [] = []"
| "legend_items pystr legend_x y_offset ((col, lab) # rows) =
     legend_rect pystr legend_x y_offset col # legend_text pystr legend_x y_offset lab
       # legend_items pystr legend_x (y_offset + 20) rows"

definition legend_rows :: "catalog \<Rightarrow> (string \<times> string) list" where
  \<comment> \<open>\<^verbatim>\<open>sorted(color_labels.items(), key=lambda x: x[1])\<close>: a stable sort\<close>
  "legend_rows data = sort_key snd (color_labels data)"

definition add_legend ::
  "(real \<Rightarrow> string) \<Rightarrow> element \<Rightarrow> catalog \<Rightarrow> real \<Rightarrow> real option \<Rightarrow> viewbox \<Rightarrow> element"
where
  "add_legend pystr root_el data legend_x legend_y vb =
     (let y0 = (case legend_y of
                  None \<Rightarrow> (case vb of (_, _, _, vb_height) \<Rightarrow>
                             vb_height - (real (length (color_labels data)) * 20 + 30))
                | Some y \<Rightarrow> y)
      in append_child root_el
           (Element ''g'' [(''id'', ''legend'')]
              (legend_items pystr legend_x y0 (legend_rows data)) None))"

definition add_title :: "(real \<Rightarrow> string) \<Rightarrow> element \<Rightarrow> string \<Rightarrow> viewbox \<Rightarrow> element" where
  "add_title pystr root_el title_text vb =
     (case vb of (_, _, vb_width, _) \<Rightarrow>
        append_child root_el
          (Element ''text''
             [(''x'', pystr (vb_width / 2)), (''y'', ''30''), (''font-family'', ''sans-serif''),
              (''font-size'', ''24''), (''font-weight'', ''bold''), (''fill'', ''#333''),
              (''text-anchor'', ''middle'')] [] (Some title_text)))"

section \<open>The colouring run on a parsed document\<close>

record options =
  default_color :: string
  add_legend_flag :: bool
  title_text :: "string option"
  legend_x :: real
  legend_y :: "real option"

definition color_document ::
  "(string \<Rightarrow> real option) \<Rightarrow> (real \<Rightarrow> string) \<Rightarrow> element \<Rightarrow> catalog \<Rightarrow> options
     \<Rightarrow> error + (element \<times> color_stats)" where
  \<comment> \<open>\<^verbatim>\<open>color_map\<close> from \<^verbatim>\<open>get_viewbox(root)\<close> to the statistics, the file access apart\<close>
  "color_document pyfloat pystr root_el data opts =
     (case get_viewbox pyfloat root_el of
        Inl e \<Rightarrow> Inl e
      | Inr vb \<Rightarrow>
          (let (root1, st) = color_paths data (default_color opts) root_el;
               root2 = (if add_legend_flag opts
                        then add_legend pystr root1 data (legend_x opts) (legend_y opts) vb
                        else root1);
               root3 = (case title_text opts of
                          Some t \<Rightarrow> if t \<noteq> [] then add_title pystr root2 t vb else root2
                        | None \<Rightarrow> root2)
           in Inr (root3, make_stats data st)))"
section \<open>Definitions used to state the properties\<close>

text \<open>
  A property name or value that the style string can carry unchanged: it has no leading or
  trailing whitespace and no separator of the format.
\<close>

definition clean_key :: "string \<Rightarrow> bool" where
  "clean_key k \<longleftrightarrow> strip k = k \<and> CHR '':'' \<notin> set k \<and> CHR '';'' \<notin> set k"

definition clean_value :: "string \<Rightarrow> bool" where
  "clean_value v \<longleftrightarrow> strip v = v \<and> CHR '';'' \<notin> set v"


text \<open>The effect of one iteration of the loop over the paths on the counters.\<close>

definition count_step :: "catalog \<Rightarrow> string \<Rightarrow> walk_state \<Rightarrow> element \<Rightarrow> walk_state" where
  "count_step data dc st p = snd (color_path data dc p st)"








text \<open>The color and label of every catalog entry, in catalog order.\<close>

definition color_label_pairs :: "catalog \<Rightarrow> (string \<times> string) list" where
  "color_label_pairs data = map (\<lambda>(code, info). (color info, label info)) data"


text \<open>The children of the last child of the root: the legend group, once it is added.\<close>

definition legend_group :: "element \<Rightarrow> element list" where
  "legend_group root_el = children (last (children root_el))"


text \<open>Concrete inputs on which the theorems are instantiated.\<close>

definition fill_and_style_path :: element where
  "fill_and_style_path =
     Element ''path'' [(''fill'', ''red''), (''style'', ''stroke:#000'')] [] None"

definition styled_path :: element where
  "styled_path = Element ''path'' [(''id'', ''FR''), (''style'', ''stroke:#000'')] [] None"

definition digits_float :: "string \<Rightarrow> real option" where
  \<comment> \<open>\<^verbatim>\<open>float\<close> on the strings of decimal digits\<close>
  "digits_float s =
     (if s \<noteq> [] \<and> list_all (\<lambda>c. 48 \<le> (of_char c :: nat) \<and> (of_char c :: nat) \<le> 57) s
      then Some (real (foldl (\<lambda>n c. 10 * n + (of_char c - 48)) 0 s))
      else None)"

definition two_paths :: element where
  "two_paths = Element ''svg'' [(''viewBox'', ''0 0 100 50'')]
     [Element ''path'' [(''id'', ''US'')] [] None,
      Element ''g'' []
        [Element ''path'' [(''id'', ''FR''), (''style'', ''stroke:#000'')] [] None] None] None"

definition us_zz :: catalog where
  "us_zz = [(''US'', \<lparr>color = ''#3b82f6'', label = ''US''\<rparr>),
            (''ZZ'', \<lparr>color = ''#000000'', label = ''Nowhere''\<rparr>)]"

definition plain_options :: options where
  "plain_options = \<lparr>default_color = ''#ececec'', add_legend_flag = False,
      title_text = None, legend_x = 50, legend_y = None\<rparr>"

definition two_paths_colored :: element where
  "two_paths_colored = Element ''svg'' [(''viewBox'', ''0 0 100 50'')]
     [Element ''path'' [(''id'', ''US''), (''fill'', ''#3b82f6'')] [] None,
      Element ''g'' []
        [Element ''path'' [(''id'', ''FR''), (''style'', ''stroke:#000;fill:#ececec'')] [] None]
        None] None"


definition usa_canada :: catalog where
  "usa_canada = [(''US'', \<lparr>color = ''#111'', label = ''USA''\<rparr>),
                 (''CA'', \<lparr>color = ''#111'', label = ''Canada''\<rparr>),
                 (''FR'', \<lparr>color = ''#222'', label = ''France''\<rparr>)]"


section \<open>Splitting, joining and stripping\<close>

lemma split_on_nonempty: "split_on c xs \<noteq> []"
  by (induction xs) (auto split: list.splits)

lemma split_on_no_sep: "c \<notin> set xs \<Longrightarrow> split_on c xs = [xs]"
  by (induction xs) auto

lemma hd_split_on: "hd (split_on c xs) = takeWhile (\<lambda>x. x \<noteq> c) xs"
proof (induction xs)
  case Nil
  show ?case by simp
next
  case (Cons x xs)
  obtain w ws where w: "split_on c xs = w # ws"
    using split_on_nonempty[of c xs] by (cases "split_on c xs") auto
  with Cons show ?case by simp
qed

lemma split_on_append_sep:
  "split_on c (xs @ c # ys) = split_on c xs @ split_on c ys"
proof (induction xs)
  case Nil
  show ?case by simp
next
  case (Cons x xs)
  obtain w ws where w: "split_on c xs = w # ws"
    using split_on_nonempty[of c xs] by (cases "split_on c xs") auto
  with Cons show ?case by simp
qed

lemma split_on_join:
  "segs \<noteq> [] \<Longrightarrow> split_on c (join [c] segs) = concat (map (split_on c) segs)"
proof (induction "[c]" segs rule: join.induct)
  case 1
  then show ?case by simp
next
  case (2 x)
  show ?case by simp
next
  case (3 x y ys)
  then show ?case by (simp add: split_on_append_sep)
qed

lemma split_on_join_clean:
  assumes "segs \<noteq> []" and "\<forall>s \<in> set segs. c \<notin> set s"
  shows "split_on c (join [c] segs) = segs"
proof -
  have "concat (map (split_on c) segs) = concat (map (\<lambda>s. [s]) segs)"
    using assms(2) by (intro arg_cong[where f=concat] map_cong refl) (simp add: split_on_no_sep)
  also have "\<dots> = segs" by (induction segs) auto
  finally show ?thesis using assms(1) by (simp add: split_on_join)
qed

lemma strip_id_iff:
  "strip s = s \<longleftrightarrow> s = [] \<or> (\<not> is_space (hd s) \<and> \<not> is_space (last s))"
proof (cases "s = []")
  case True
  then show ?thesis by (simp add: strip_def)
next
  case False
  show ?thesis
  proof
    assume eq: "strip s = s"
    have h: "\<not> is_space (hd s)"
    proof
      assume sp: "is_space (hd s)"
      have "length (strip s) \<le> length (dropWhile is_space s)"
        unfolding strip_def by (simp add: length_dropWhile_le) (metis length_dropWhile_le length_rev)
      also have "\<dots> < length s" using False sp by (cases s) (auto simp: length_dropWhile_le less_Suc_eq_le)
      finally show False using eq by simp
    qed
    have l: "\<not> is_space (last s)"
    proof
      assume sp: "is_space (last s)"
      from h False have d: "dropWhile is_space s = s" by (cases s) auto
      have "length (strip s) = length (dropWhile is_space (rev s))"
        unfolding strip_def d by simp
      also have "\<dots> < length (rev s)" using False sp
        by (cases "rev s") (auto simp: length_dropWhile_le less_Suc_eq_le last_rev hd_rev[symmetric] dest: arg_cong[where f=hd])
      finally show False using eq by simp
    qed
    from h l show "s = [] \<or> (\<not> is_space (hd s) \<and> \<not> is_space (last s))" by simp
  next
    assume "s = [] \<or> (\<not> is_space (hd s) \<and> \<not> is_space (last s))"
    with False have h: "\<not> is_space (hd s)" and l: "\<not> is_space (last s)" by auto
    from h False have d: "dropWhile is_space s = s" by (cases s) auto
    from l False have "dropWhile is_space (rev s) = rev s"
      by (cases "rev s") (auto simp: last_rev hd_rev[symmetric] dest: arg_cong[where f=hd])
    then show "strip s = s" by (simp add: strip_def d)
  qed
qed

section \<open>The style codec\<close>

lemma colon_not_space: "\<not> is_space CHR '':''"
  by (simp add: is_space_def)

lemma strip_declaration:
  assumes "strip k = k" and "strip v = v"
  shows "strip (k @ '':'' @ v) = k @ '':'' @ v"
proof -
  have "k @ '':'' @ v \<noteq> []" by simp
  moreover have "\<not> is_space (hd (k @ '':'' @ v))"
    using assms(1) colon_not_space by (cases k) (auto simp: strip_id_iff)
  moreover have "\<not> is_space (last (k @ '':'' @ v))"
    using assms(2) colon_not_space by (cases "v = []") (auto simp: strip_id_iff)
  ultimately show ?thesis by (simp only: strip_id_iff) simp
qed

lemma split_first_declaration:
  "CHR '':'' \<notin> set k \<Longrightarrow> split_first CHR '':'' (k @ '':'' @ v) = (k, v)"
  by (simp add: split_first_def takeWhile_append dropWhile_append)

lemma parse_declaration_clean:
  assumes "clean_key k" and "clean_value v"
  shows "parse_declaration styles (k @ '':'' @ v) = AList.update k v styles"
  using assms
  by (simp add: parse_declaration_def clean_key_def clean_value_def
      strip_declaration split_first_declaration del: append.simps)

lemma update_fresh: "k \<notin> fst ` set al \<Longrightarrow> AList.update k v al = al @ [(k, v)]"
  by (induction al) auto

lemma foldl_update_distinct:
  "distinct (map fst (acc @ m)) \<Longrightarrow>
   foldl (\<lambda>a (k, v). AList.update k v a) acc m = acc @ m"
proof (induction m arbitrary: acc)
  case Nil
  show ?case by simp
next
  case (Cons p m)
  obtain k v where p: "p = (k, v)" by (cases p)
  from Cons.prems have fresh: "k \<notin> fst ` set acc" by (auto simp: p)
  from Cons.prems have "distinct (map fst ((acc @ [(k, v)]) @ m))" by (auto simp: p)
  from Cons.IH[OF this] show ?case by (simp add: p update_fresh[OF fresh])
qed

lemma foldl_parse_declaration_clean:
  "\<forall>(k, v) \<in> set m. clean_key k \<and> clean_value v \<Longrightarrow>
   foldl parse_declaration acc (map (\<lambda>(k, v). k @ '':'' @ v) m)
     = foldl (\<lambda>a (k, v). AList.update k v a) acc m"
proof (induction m arbitrary: acc)
  case Nil
  show ?case by simp
next
  case (Cons p m)
  obtain k v where p: "p = (k, v)" by (cases p)
  from Cons.prems have "clean_key k" "clean_value v" by (auto simp: p)
  then have "parse_declaration acc (k @ '':'' @ v) = AList.update k v acc"
    by (rule parse_declaration_clean)
  moreover from Cons.prems have "\<forall>(k, v) \<in> set m. clean_key k \<and> clean_value v" by simp
  ultimately show ?case using Cons.IH by (simp add: p del: append.simps)
qed

lemma join_eq_Nil: "join sep xs = [] \<Longrightarrow> \<forall>x \<in> set xs. x = []"
  by (induction sep xs rule: join.induct) auto

lemma style_to_string_nonempty: "m \<noteq> [] \<Longrightarrow> style_to_string m \<noteq> []"
proof
  assume ne: "m \<noteq> []" and "style_to_string m = []"
  then have "\<forall>x \<in> set (map (\<lambda>(k, v). k @ '':'' @ v) m). x = []"
    unfolding style_to_string_def by (rule_tac join_eq_Nil)
  with ne show False by (cases m) auto
qed


lemma parse_declaration_keys_mono:
  "fst ` set styles \<subseteq> fst ` set (parse_declaration styles d)"
proof (cases "split_first CHR '':'' (strip d)")
  case (Pair a b)
  then show ?thesis
    by (simp add: parse_declaration_def Let_def AList.dom_update subset_insertI)
qed

lemma foldl_parse_declaration_keys_mono:
  "fst ` set acc \<subseteq> fst ` set (foldl parse_declaration acc segs)"
proof (induction segs arbitrary: acc)
  case Nil
  show ?case by simp
next
  case (Cons d segs)
  have "fst ` set acc \<subseteq> fst ` set (parse_declaration acc d)"
    by (rule parse_declaration_keys_mono)
  also have "\<dots> \<subseteq> fst ` set (foldl parse_declaration (parse_declaration acc d) segs)"
    by (rule Cons.IH)
  finally show ?case by simp
qed

lemma strip_fill_prefix:
  "\<exists>t'. strip (''fill:'' @ t) = ''fill:'' @ t'"
proof -
  have sp: "\<not> is_space CHR ''f''" "\<not> is_space CHR '':''"
    by (simp_all add: is_space_def)
  have front: "dropWhile is_space (''fill:'' @ t) = ''fill:'' @ t"
    using sp by simp
  have rv: "rev (''fill:'' @ t) = rev t @ '':llif''" by simp
  show ?thesis
  proof (cases "\<forall>x \<in> set (rev t). is_space x")
    case True
    then have "dropWhile is_space (rev t @ '':llif'') = '':llif''"
      using sp by (simp add: dropWhile_append)
    then have "strip (''fill:'' @ t) = ''fill:'' @ []"
      unfolding strip_def front rv by simp
    then show ?thesis by blast
  next
    case False
    then have "dropWhile is_space (rev t @ '':llif'') = dropWhile is_space (rev t) @ '':llif''"
      by (simp add: dropWhile_append)
    then have "strip (''fill:'' @ t) = ''fill:'' @ rev (dropWhile is_space (rev t))"
      unfolding strip_def front rv by simp
    then show ?thesis by blast
  qed
qed

lemma parse_declaration_fill:
  "''fill'' \<in> fst ` set (parse_declaration styles (''fill:'' @ t))"
proof -
  obtain t' where s: "strip (''fill:'' @ t) = ''fill:'' @ t'"
    using strip_fill_prefix by blast
  have "strip ''fill'' = ''fill''" by (simp add: strip_def is_space_def)
  then show ?thesis
    by (simp add: parse_declaration_def s split_first_def AList.dom_update del: append.simps)
       (simp add: AList.dom_update)
qed

lemma foldl_parse_declaration_fill:
  "''fill:'' @ t \<in> set segs \<Longrightarrow> ''fill'' \<in> fst ` set (foldl parse_declaration acc segs)"
proof (induction segs arbitrary: acc)
  case Nil
  then show ?case by simp
next
  case (Cons d segs)
  show ?case
  proof (cases "d = ''fill:'' @ t")
    case True
    have "''fill'' \<in> fst ` set (parse_declaration acc d)"
      unfolding True by (rule parse_declaration_fill)
    then show ?thesis
      using foldl_parse_declaration_keys_mono[of "parse_declaration acc d" segs] by auto
  next
    case False
    with Cons.prems have "''fill:'' @ t \<in> set segs" by simp
    from Cons.IH[OF this] show ?thesis by simp
  qed
qed

lemma fill_survives_reparse:
  "''fill'' \<in> fst ` set (parse_style (style_to_string (AList.update ''fill'' col styles)))"
proof -
  let ?m = "AList.update ''fill'' col styles"
  let ?segs = "map (\<lambda>(k, v). k @ '':'' @ v) ?m"
  have "map_of ?m ''fill'' = Some col" by (simp add: AList.update_conv')
  then have "(''fill'', col) \<in> set ?m" by (rule map_of_SomeD)
  then have mem: "''fill:'' @ col \<in> set ?segs" by force
  have ne: "?segs \<noteq> []" by simp
  have "hd (split_on CHR '';'' (''fill:'' @ col)) \<in> set (split_on CHR '';'' (''fill:'' @ col))"
    by (rule hd_in_set) (rule split_on_nonempty)
  then have "''fill:'' @ takeWhile (\<lambda>x. x \<noteq> CHR '';'') col
               \<in> set (split_on CHR '';'' (''fill:'' @ col))"
    by (simp add: hd_split_on del: split_on.simps)
  with mem have "\<exists>seg \<in> set ?segs. ''fill:'' @ takeWhile (\<lambda>x. x \<noteq> CHR '';'') col
               \<in> set (split_on CHR '';'' seg)"
    by (rule_tac bexI)
  then have "''fill:'' @ takeWhile (\<lambda>x. x \<noteq> CHR '';'') col
               \<in> set (concat (map (split_on CHR '';'') ?segs))"
    unfolding set_concat set_map by blast
  then have "''fill:'' @ takeWhile (\<lambda>x. x \<noteq> CHR '';'') col
               \<in> set (split_on CHR '';'' (style_to_string ?m))"
    using split_on_join[OF ne, of "CHR '';''"] by (simp add: style_to_string_def)
  then have "''fill'' \<in> fst ` set (foldl parse_declaration [] (split_on CHR '';'' (style_to_string ?m)))"
    by (rule foldl_parse_declaration_fill)
  moreover have "style_to_string ?m \<noteq> []"
    by (rule style_to_string_nonempty) simp
  ultimately show ?thesis by (simp add: parse_style_def)
qed

lemma get_attr_set_attr:
  "get_attr (set_attr e k v) k' = (if k' = k then Some v else get_attr e k')"
  by (simp add: get_attr_def set_attr_def AList.update_conv')

text \<open>
  C5, as amended. A style map with distinct keys is read back unchanged, in the same
  order, from its serialised form, provided that every key and value is free of leading
  and trailing whitespace and of \<open>;\<close>, and every key is free of \<open>:\<close>. (Without the
  proviso the law fails: a value with a trailing blank comes back stripped.)
\<close>

theorem parse_style_roundtrip:
  assumes "distinct (map fst m)"
    and "\<forall>(k, v) \<in> set m. clean_key k \<and> clean_value v"
  shows "parse_style (style_to_string m) = m"
proof (cases "m = []")
  case True
  then show ?thesis by (simp add: parse_style_def style_to_string_def)
next
  case False
  let ?segs = "map (\<lambda>(k, v). k @ '':'' @ v) m"
  have segs_ne: "?segs \<noteq> []" using False by simp
  have "\<forall>s \<in> set ?segs. CHR '';'' \<notin> set s"
    using assms(2) by (auto simp: clean_key_def clean_value_def)
  with segs_ne have "split_on CHR '';'' (join '';'' ?segs) = ?segs"
    by (rule split_on_join_clean)
  then have "parse_style (style_to_string m) = foldl parse_declaration [] ?segs"
    using style_to_string_nonempty[OF False]
    by (simp add: parse_style_def) (simp add: style_to_string_def)
  also have "\<dots> = foldl (\<lambda>a (k, v). AList.update k v a) [] m"
    using assms(2) by (rule foldl_parse_declaration_clean)
  also have "\<dots> = [] @ m"
    using assms(1) by (intro foldl_update_distinct) simp
  finally show ?thesis by simp
qed

theorem parse_style_roundtrip_witness:
  "parse_style (style_to_string [(''fill'', ''#fff''), (''stroke'', ''1px solid'')])
     = [(''fill'', ''#fff''), (''stroke'', ''1px solid'')]"
  using parse_style_roundtrip[of "[(''fill'', ''#fff''), (''stroke'', ''1px solid'')]"]
  by (simp add: clean_key_def clean_value_def strip_def is_space_def)

theorem parse_style_roundtrip_counterexample:
  "\<not> (\<forall>m. distinct (map fst m) \<longrightarrow> parse_style (style_to_string m) = m)"
proof
  assume a: "\<forall>m. distinct (map fst m) \<longrightarrow> parse_style (style_to_string m) = m"
  have "parse_style (style_to_string [(''fill'', ''red '')]) = [(''fill'', ''red'')]"
    by code_simp
  moreover have "parse_style (style_to_string [(''fill'', ''red '')]) = [(''fill'', ''red '')]"
    using a[THEN spec[where x = "[(''fill'', ''red '')]"]] by simp
  ultimately show False by simp
qed

section \<open>Setting the fill color\<close>

text \<open>
  C1, as amended. After \<open>set_fill_color\<close> the element carries both a bare \<open>fill\<close>
  attribute and a \<open>style\<close> attribute whose map has a \<open>fill\<close> property exactly when it
  had a bare \<open>fill\<close> attribute and a non-empty \<open>style\<close> attribute before the call; an
  element that did not have both before never has both afterwards.
\<close>

theorem set_fill_color_both_iff:
  "has_fill_attr (set_fill_color e col) \<and> style_has_fill (set_fill_color e col)
     \<longleftrightarrow> has_fill_attr e \<and> truthy (get_attr e ''style'')"
proof (cases "truthy (get_attr e ''style'')")
  case True
  then obtain s where s: "get_attr e ''style'' = Some s" "s \<noteq> []"
    by (auto simp: truthy_def split: option.splits)
  then show ?thesis
    using True
    by (simp add: set_fill_color_def has_fill_attr_def style_has_fill_def
        get_attr_set_attr fill_survives_reparse)
next
  case False
  then have "get_attr e ''style'' = None \<or> get_attr e ''style'' = Some []"
    by (auto simp: truthy_def split: option.splits)
  then show ?thesis
    using False
    by (auto simp: set_fill_color_def has_fill_attr_def style_has_fill_def
        get_attr_set_attr parse_style_def)
qed


theorem set_fill_color_both_iff_witness:
  "\<not> (has_fill_attr (set_fill_color styled_path ''#00f'')
       \<and> style_has_fill (set_fill_color styled_path ''#00f''))"
  using set_fill_color_both_iff[of styled_path "''#00f''"]
  by (simp add: styled_path_def has_fill_attr_def get_attr_def)

theorem set_fill_color_both_counterexample:
  "\<not> (\<forall>e col. \<not> (has_fill_attr (set_fill_color e col)
                    \<and> style_has_fill (set_fill_color e col)))"
proof
  assume a: "\<forall>e col. \<not> (has_fill_attr (set_fill_color e col)
                    \<and> style_has_fill (set_fill_color e col))"
  have "has_fill_attr (set_fill_color fill_and_style_path ''#00f'')
      \<and> style_has_fill (set_fill_color fill_and_style_path ''#00f'')"
    by code_simp
  with a[THEN spec[where x = fill_and_style_path], THEN spec[where x = "''#00f''"]]
  show False by (rule notE)
qed

section \<open>The walk over the paths\<close>

lemma walk_state_eq:
  "snd (walk data dc t es st) = foldl (count_step data dc) st (descendants t es)"
proof (induction data dc t es st rule: walk.induct)
  case (1 data dc t st)
  show ?case by simp
next
  case (2 data dc t t' a cs x es st)
  show ?case
  proof (cases "t' = t")
    case True
    obtain e1 st1 where c: "color_path data dc (Element t' a cs x) st = (e1, st1)"
      by (cases "color_path data dc (Element t' a cs x) st")
    obtain cs1 st2 where w1: "walk data dc t cs st1 = (cs1, st2)"
      by (cases "walk data dc t cs st1")
    obtain es1 st3 where w2: "walk data dc t es st2 = (es1, st3)"
      by (cases "walk data dc t es st2")
    from "2.IH"(1)[of "(e1, st1)" e1 st1] True c w1
    have i1: "st2 = foldl (count_step data dc) st1 (descendants t cs)" by simp
    from "2.IH"(2)[of "(e1, st1)" e1 st1 "(cs1, st2)" cs1 st2] True c w1 w2
    have i2: "st3 = foldl (count_step data dc) st2 (descendants t es)" by simp
    have "count_step data dc st (Element t' a cs x) = st1"
      using c by (simp add: count_step_def)
    then show ?thesis using True c w1 w2 i1 i2 by simp
  next
    case False
    obtain cs1 st2 where w1: "walk data dc t cs st = (cs1, st2)"
      by (cases "walk data dc t cs st")
    obtain es1 st3 where w2: "walk data dc t es st2 = (es1, st3)"
      by (cases "walk data dc t es st2")
    from "2.IH"(1)[of "(Element t' a cs x, st)" "Element t' a cs x" st] False w1
    have i1: "st2 = foldl (count_step data dc) st (descendants t cs)" by simp
    from "2.IH"(2)[of "(Element t' a cs x, st)" "Element t' a cs x" st "(cs1, st2)" cs1 st2] False w1 w2
    have i2: "st3 = foldl (count_step data dc) st2 (descendants t es)" by simp
    show ?thesis using False w1 w2 i1 i2 by simp
  qed
qed

lemma lookup_id_key:
  "lookup_id data p = Some (col, code) \<Longrightarrow> code \<in> fst ` set data"
  by (auto simp: lookup_id_def Let_def split: option.splits dest!: map_of_SomeD intro: rev_image_eqI)

lemma lookup_class_key:
  "lookup_class data p = Some (col, code) \<Longrightarrow> code \<in> fst ` set data"
  by (auto simp: lookup_class_def Let_def split: option.splits dest!: map_of_SomeD intro: rev_image_eqI)

lemma apply_color_matched:
  assumes "\<And>col code. hit = Some (col, code) \<Longrightarrow> code \<in> K"
  shows "matched_codes (snd (apply_color dc hit p st)) \<subseteq> matched_codes st \<union> K"
  using assms by (cases hit) (auto simp: apply_color_def split: if_splits)

lemma count_step_matched:
  "matched_codes (count_step data dc st p) \<subseteq> matched_codes st \<union> fst ` set data"
proof (cases "lookup_id data p")
  case (Some hit)
  then show ?thesis
    using apply_color_matched[of "Some hit" "fst ` set data" dc p st] lookup_id_key[of data p]
    by (cases hit) (simp add: count_step_def color_path_def)
next
  case None
  show ?thesis
  proof (cases "lookup_class data p")
    case (Some hit)
    then show ?thesis
      using None lookup_class_key[of data p]
        apply_color_matched[of "Some hit" "fst ` set data" dc p
          "st\<lparr>multi_path_count := multi_path_count st + 1\<rparr>"]
      by (cases hit) (simp add: count_step_def color_path_def)
  next
    case None2: None
    then show ?thesis
      using None by (simp add: count_step_def color_path_def apply_color_def)
  qed
qed

lemma foldl_count_step_matched:
  "matched_codes st \<subseteq> fst ` set data \<Longrightarrow>
   matched_codes (foldl (count_step data dc) st ps) \<subseteq> fst ` set data"
proof (induction ps arbitrary: st)
  case Nil
  then show ?case by simp
next
  case (Cons p ps)
  have "matched_codes (count_step data dc st p) \<subseteq> fst ` set data"
    using count_step_matched[of data dc st p] Cons.prems by blast
  from Cons.IH[OF this] show ?case by simp
qed

lemma color_paths_state:
  "snd (color_paths data dc r) =
     foldl (count_step data dc) initial_state (descendants (find_path_tag r) (children r))"
  using walk_state_eq[of data dc "find_path_tag r" "children r" initial_state]
  by (cases "walk data dc (find_path_tag r) (children r) initial_state")
     (simp add: color_paths_def)

lemma color_paths_matched:
  "matched_codes (snd (color_paths data dc r)) \<subseteq> fst ` set data"
  unfolding color_paths_state
  by (rule foldl_count_step_matched) (simp add: initial_state_def)


section \<open>Statistics\<close>

text \<open>
  C3. For a catalog with distinct codes, the statistics a run returns satisfy: the
  matched codes are codes of the catalog, \<open>unmatched\<close> is the size of the catalog minus
  the number of matched codes, and \<open>unmatched_codes\<close> lists exactly the codes of the
  catalog that were not matched, in ascending order and without repetition.
\<close>

theorem stats_unmatched:
  assumes "distinct (map fst data)"
    and "color_document pyfloat pystr r data opts = Inr (r', s)"
  shows "matched_codes (snd (color_paths data (default_color opts) r)) \<subseteq> set (map fst data)
       \<and> unmatched s = length data - card (matched_codes (snd (color_paths data (default_color opts) r)))
       \<and> set (unmatched_codes s) = set (map fst data) - matched_codes (snd (color_paths data (default_color opts) r))
       \<and> sorted (unmatched_codes s) \<and> distinct (unmatched_codes s)"
proof -
  let ?M = "matched_codes (snd (color_paths data (default_color opts) r))"
  have sub: "?M \<subseteq> set (map fst data)"
    using color_paths_matched[of data "default_color opts" r] by simp
  have s: "s = make_stats data (snd (color_paths data (default_color opts) r))"
    using assms(2)
    by (auto simp: color_document_def Let_def split: sum.splits prod.splits)
  have fin: "finite ?M" using sub by (rule finite_subset) simp
  have "card (set (map fst data) - ?M) = card (set (map fst data)) - card ?M"
    using fin sub by (rule card_Diff_subset)
  also have "card (set (map fst data)) = length data"
    using assms(1) distinct_card[of "map fst data"] by simp
  finally have c: "unmatched s = length data - card ?M"
    by (simp add: s make_stats_def)
  have u: "unmatched_codes s = sorted_list_of_set (set (map fst data) - ?M)"
    by (simp add: s make_stats_def)
  show ?thesis
    using sub c by (simp add: u)
qed

theorem stats_unmatched_witness:
  "distinct (map fst us_zz)
   \<and> color_document digits_float (\<lambda>x. ''0'') two_paths us_zz plain_options
       = Inr (two_paths_colored,
              \<lparr>colored = 1, multi_path = 0, unmatched = 1, unmatched_codes = [''ZZ'']\<rparr>)
   \<and> matched_codes (snd (color_paths us_zz (default_color plain_options) two_paths))
       \<subseteq> set (map fst us_zz)
   \<and> (1::nat) = length us_zz
         - card (matched_codes (snd (color_paths us_zz (default_color plain_options) two_paths)))
   \<and> set [''ZZ''] = set (map fst us_zz)
         - matched_codes (snd (color_paths us_zz (default_color plain_options) two_paths))"
proof -
  have d: "distinct (map fst us_zz)" by (simp add: us_zz_def)
  have r: "color_document digits_float (\<lambda>x. ''0'') two_paths us_zz plain_options
       = Inr (two_paths_colored,
              \<lparr>colored = 1, multi_path = 0, unmatched = 1, unmatched_codes = [''ZZ'']\<rparr>)"
    by code_simp
  from stats_unmatched[OF d r] d r show ?thesis
    by simp
qed

section \<open>Running the colorer on its own output\<close>

































section \<open>The legend\<close>

lemma color_labels_step_fresh:
  "map_of cl c = None \<Longrightarrow> color_labels_step cl (code, \<lparr>color = c, label = l\<rparr>) = cl @ [(c, l)]"
  by (simp add: color_labels_step_def update_fresh map_of_eq_None_iff)

lemma map_of_shadowed:
  "map_of acc c \<noteq> None \<Longrightarrow> map_of (acc @ (c, l) # ys) = map_of (acc @ ys)"
  by (auto simp: fun_eq_iff map_add_def split: option.splits)

lemma foldl_color_labels_step:
  "distinct (map fst acc) \<Longrightarrow>
   distinct (map fst (foldl color_labels_step acc data))
   \<and> map_of (foldl color_labels_step acc data) = map_of (acc @ color_label_pairs data)"
proof (induction data arbitrary: acc)
  case Nil
  then show ?case by (simp add: color_label_pairs_def)
next
  case (Cons p data)
  obtain code info where p: "p = (code, info)" by (cases p)
  show ?case
  proof (cases "map_of acc (color info) = None")
    case True
    then have s: "color_labels_step acc p = acc @ [(color info, label info)]"
      by (simp add: p color_labels_step_def update_fresh map_of_eq_None_iff)
    from True Cons.prems have "distinct (map fst (acc @ [(color info, label info)]))"
      by (simp add: map_of_eq_None_iff)
    from Cons.IH[OF this]
    have "distinct (map fst (foldl color_labels_step (color_labels_step acc p) data))
      \<and> map_of (foldl color_labels_step (color_labels_step acc p) data)
          = map_of ((acc @ [(color info, label info)]) @ color_label_pairs data)"
      by (simp only: s)
    moreover have "color_label_pairs (p # data) = (color info, label info) # color_label_pairs data"
      by (simp add: p color_label_pairs_def)
    ultimately show ?thesis by simp
  next
    case False
    then have s: "color_labels_step acc p = acc"
      by (auto simp: p color_labels_step_def)
    have "color_label_pairs (p # data) = (color info, label info) # color_label_pairs data"
      by (simp add: p color_label_pairs_def)
    with Cons.IH[OF Cons.prems] map_of_shadowed[OF False] show ?thesis
      by (simp add: s)
  qed
qed

lemma color_labels_eq: "color_labels data = foldl color_labels_step [] data"
  by (simp add: color_labels_def)

lemma color_labels_distinct: "distinct (map fst (color_labels data))"
  using foldl_color_labels_step[of "[]" data] by (simp add: color_labels_eq)

lemma color_labels_map_of: "map_of (color_labels data) = map_of (color_label_pairs data)"
  using foldl_color_labels_step[of "[]" data] by (simp add: color_labels_eq)

lemma color_labels_keys: "fst ` set (color_labels data) = fst ` set (color_label_pairs data)"
proof -
  have "dom (map_of (color_labels data)) = dom (map_of (color_label_pairs data))"
    by (simp add: color_labels_map_of)
  then show ?thesis by (simp add: dom_map_of_conv_image_fst)
qed

lemma legend_rows_set: "set (legend_rows data) = set (color_labels data)"
  by (simp add: legend_rows_def)

lemma legend_rows_distinct: "distinct (map fst (legend_rows data))"
proof -
  have "distinct (color_labels data)" "inj_on fst (set (color_labels data))"
    using color_labels_distinct[of data] by (simp_all add: distinct_map)
  then show ?thesis
    by (simp add: distinct_map legend_rows_def)
qed

lemma legend_items_rects:
  "map (\<lambda>e. get_attr e ''fill'') (filter (\<lambda>e. tag e = ''rect'') (legend_items pystr lx y rows))
     = map (\<lambda>r. Some (fst r)) rows"
  by (induction pystr lx y rows rule: legend_items.induct)
     (simp_all add: legend_rect_def legend_text_def get_attr_def)

lemma legend_items_texts:
  "map etext (filter (\<lambda>e. tag e = ''text'') (legend_items pystr lx y rows))
     = map (\<lambda>r. Some (snd r)) rows"
  by (induction pystr lx y rows rule: legend_items.induct)
     (simp_all add: legend_rect_def legend_text_def)

lemma legend_items_length: "length (legend_items pystr lx y rows) = 2 * length rows"
  by (induction pystr lx y rows rule: legend_items.induct) simp_all

lemma legend_group_add_legend:
  "\<exists>y0. legend_group (add_legend pystr r data lx ly vb)
           = legend_items pystr lx y0 (legend_rows data)"
  by (simp add: legend_group_def add_legend_def append_child_def Let_def) (rule exI, rule refl)


text \<open>
  C7. The legend has exactly one row per distinct color of the catalog; the label of a
  row is the label of the first catalog entry, in catalog order, that carries the row's
  color; the rows are in ascending order of label; and the rectangles and texts of the
  legend group carry these colors and labels, in this order. Two codes that share a color
  give one row.
\<close>

theorem legend_rows_per_color:
  "distinct (map fst (legend_rows data))
   \<and> fst ` set (legend_rows data) = (\<lambda>(code, info). color info) ` set data
   \<and> (\<forall>(c, l) \<in> set (legend_rows data). map_of (color_label_pairs data) c = Some l)
   \<and> sorted (map snd (legend_rows data))
   \<and> map (\<lambda>e. get_attr e ''fill'')
         (filter (\<lambda>e. tag e = ''rect'') (legend_group (add_legend pystr r data lx ly vb)))
       = map (\<lambda>r. Some (fst r)) (legend_rows data)
   \<and> map etext
         (filter (\<lambda>e. tag e = ''text'') (legend_group (add_legend pystr r data lx ly vb)))
       = map (\<lambda>r. Some (snd r)) (legend_rows data)"
proof -
  have a: "distinct (map fst (legend_rows data))" by (rule legend_rows_distinct)
  have "fst ` set (color_label_pairs data) = (\<lambda>(code, info). color info) ` set data"
    by (force simp: color_label_pairs_def)
  then have b: "fst ` set (legend_rows data) = (\<lambda>(code, info). color info) ` set data"
    by (simp add: legend_rows_set color_labels_keys)
  have c: "\<forall>(c, l) \<in> set (legend_rows data). map_of (color_label_pairs data) c = Some l"
  proof (clarify)
    fix c l assume "(c, l) \<in> set (legend_rows data)"
    then have "(c, l) \<in> set (color_labels data)" by (simp add: legend_rows_set)
    then have "map_of (color_labels data) c = Some l"
      using color_labels_distinct[of data] by simp
    then show "map_of (color_label_pairs data) c = Some l"
      by (simp add: color_labels_map_of)
  qed
  have d: "sorted (map snd (legend_rows data))"
    by (simp add: legend_rows_def)
  obtain y0 where g: "legend_group (add_legend pystr r data lx ly vb)
           = legend_items pystr lx y0 (legend_rows data)"
    using legend_group_add_legend by blast
  show ?thesis
    using a b c d by (simp add: g legend_items_rects legend_items_texts)
qed

theorem legend_rows_per_color_witness:
  "legend_rows usa_canada = [(''#222'', ''France''), (''#111'', ''USA'')]
   \<and> map_of (color_label_pairs usa_canada) ''#111'' = Some ''USA''
   \<and> map etext (filter (\<lambda>e. tag e = ''text'')
         (legend_group (add_legend (\<lambda>x. ''0'') two_paths usa_canada 50 None (0, 0, 100, 50))))
       = [Some ''France'', Some ''USA'']"
proof -
  have rows: "legend_rows usa_canada = [(''#222'', ''France''), (''#111'', ''USA'')]"
    by code_simp
  from legend_rows_per_color[of usa_canada "\<lambda>x. ''0''" two_paths 50 None "(0, 0, 100, 50)"]
  show ?thesis by (simp add: rows)
qed

end
